theory Spec2Isabelle
  imports Main "HOL-Library.Word"
begin

unbundle bit_operations_syntax

section \<open>Conventions\<close>

text \<open>
  The development embeds the parts of the toolkit that the verified properties talk
  about: the coordinate clamp of the Xlib graphics driver
  (\<^verbatim>\<open>src/drivers/Xlib/Fl_Xlib_Graphics_Driver.H\<close>), the row selection of
  \<^verbatim>\<open>Fl_Table_Row\<close> (\<^verbatim>\<open>src/Fl_Table_Row.cxx\<close>) and the clip stack of the
  Cairo graphics driver (\<^verbatim>\<open>src/drivers/Cairo/Fl_Cairo_Graphics_Driver.H\<close>), whose
  data is declared in the header and whose operations are described by the design
  specification only.

  A C++ \<^verbatim>\<open>int\<close> is modelled as a HOL \<open>int\<close>: none of the embedded functions
  computes a value outside the range of its operands except by the additions of the
  rectangle arithmetic, where C++ leaves overflow undefined. The elements of the
  selection vector are bytes (\<open>8 word\<close>), because a store into the vector truncates
  the \<^verbatim>\<open>int\<close> that is stored. A member function becomes a function that takes
  the object last and returns the updated object next to its result.
\<close>

section \<open>Xlib graphics driver: clipping to the 16-bit coordinate space\<close>

text \<open>
  The data members of \<^verbatim>\<open>Fl_Xlib_Graphics_Driver\<close> that belong to the translation
  stack and to the coordinate limit. The member \<^verbatim>\<open>clip_max_\<close> is set by code
  outside the header, so every function below reads it from the object.
\<close>

record Fl_Xlib_Graphics_Driver =
  offset_x :: int
  offset_y :: int
  depth :: nat
  stack_x :: "int list"
  stack_y :: "int list"
  clip_max_field :: int

definition clip_max :: "Fl_Xlib_Graphics_Driver \<Rightarrow> int" where
  "clip_max d = clip_max_field d"

definition clip_min :: "Fl_Xlib_Graphics_Driver \<Rightarrow> int" where
  "clip_min d = - clip_max_field d"

text \<open>
  \<^verbatim>\<open>return (x < clip_min() ? clip_min() : (x > clip_max() ? clip_max() : x ));\<close>
\<close>

definition clip_xy :: "int \<Rightarrow> Fl_Xlib_Graphics_Driver \<Rightarrow> int" where
  "clip_xy x d = (if x < clip_min d then clip_min d else (if x > clip_max d then clip_max d else x))"

section \<open>Fl_Table_Row: row selection\<close>

datatype TableRowSelectMode = SELECT_NONE | SELECT_SINGLE | SELECT_MULTI

text \<open>
  \<^verbatim>\<open>redraw()\<close> and \<^verbatim>\<open>redraw_range(toprow, botrow, leftcol, rightcol)\<close> belong to
  the base classes; the model records each request in the order it is made.
\<close>

datatype redraw_request = Redraw | Redraw_Range int int int int

text \<open>
  The members that \<^verbatim>\<open>Fl_Table_Row.cxx\<close> reads and writes: \<open>rows\<close> is what
  \<^verbatim>\<open>Fl_Table::rows()\<close> returns, \<open>rowselect\<close> is the vector \<^verbatim>\<open>_rowselect\<close>
  and \<open>selectmode\<close> is \<^verbatim>\<open>_selectmode\<close>. The class header, which declares the
  element type of the vector, is not among the sources; the elements are taken to be
  bytes, one per row. The properties proved below only distinguish a zero element from
  a non-zero one.
\<close>

record Fl_Table_Row =
  rows :: int
  toprow :: int
  botrow :: int
  leftcol :: int
  rightcol :: int
  rowselect :: "8 word list"
  selectmode :: TableRowSelectMode
  redraws :: "redraw_request list"

text \<open>
  \<^verbatim>\<open>_rowselect[i]\<close> is defined only for an index inside the vector. A read outside
  it is undefined behaviour in C++; the model returns \<open>None\<close> there, and every
  function that may reach such a read returns an option.
\<close>

definition vec_get :: "8 word list \<Rightarrow> int \<Rightarrow> 8 word option" where
  "vec_get v i = (if 0 \<le> i \<and> i < int (length v) then Some (v ! nat i) else None)"

text \<open>
  \<^verbatim>\<open>if (row < 0 || row >= rows()) return 0;  return _rowselect[row];\<close>
\<close>

definition row_selected :: "int \<Rightarrow> Fl_Table_Row \<Rightarrow> int option" where
  "row_selected row s =
     (if row < 0 \<or> row \<ge> rows s then Some 0
      else map_option uint (vec_get (rowselect s) row))"

text \<open>
  The loop of the \<^verbatim>\<open>SELECT_SINGLE\<close> case of \<^verbatim>\<open>type()\<close>, with its counter:
  \<^verbatim>\<open>if (sel) { if (++count > 1) { sel = 0; } }\<close> for every element in order.
\<close>

fun single_sweep :: "int \<Rightarrow> 8 word list \<Rightarrow> 8 word list" where
  "single_sweep count [] = []"
| "single_sweep count (sel # rest) =
     (if sel \<noteq> 0
      then (if count + 1 > 1 then 0 # single_sweep (count + 1) rest
            else sel # single_sweep (count + 1) rest)
      else sel # single_sweep count rest)"

definition type :: "TableRowSelectMode \<Rightarrow> Fl_Table_Row \<Rightarrow> Fl_Table_Row" where
  "type val s =
     (let s1 = s\<lparr>selectmode := val\<rparr> in
      case selectmode s1 of
        SELECT_NONE \<Rightarrow>
          s1\<lparr>rowselect := map (\<lambda>sel. 0) (rowselect s1), redraws := redraws s1 @ [Redraw]\<rparr>
      | SELECT_SINGLE \<Rightarrow>
          s1\<lparr>rowselect := single_sweep 0 (rowselect s1), redraws := redraws s1 @ [Redraw]\<rparr>
      | SELECT_MULTI \<Rightarrow> s1)"

text \<open>
  \<^verbatim>\<open>if ( flag == 2 ) { _rowselect[row] ^= 1; } else { _rowselect[row] = flag; }\<close>:
  the new byte of the row, from the flag and the old byte.
\<close>

definition change_sel :: "int \<Rightarrow> 8 word \<Rightarrow> 8 word" where
  "change_sel flag oldval = (if flag = 2 then oldval XOR 1 else word_of_int flag)"

text \<open>
  The loop \<^verbatim>\<open>for ( int t=0; t<rows(); t++ )\<close> of the \<^verbatim>\<open>SELECT_SINGLE\<close> case of
  \<^verbatim>\<open>select_row()\<close>; \<open>ret\<close> is the local variable of that name.
\<close>

function select_single_loop ::
  "int \<Rightarrow> int \<Rightarrow> int \<Rightarrow> int \<Rightarrow> Fl_Table_Row \<Rightarrow> (int \<times> Fl_Table_Row) option" where
  "select_single_loop row flag t ret s =
     (if t < rows s then
        (if t = row then
           (case vec_get (rowselect s) row of
              None \<Rightarrow> None
            | Some oldval \<Rightarrow>
                (let s1 = s\<lparr>rowselect := (rowselect s)[nat row := change_sel flag oldval]\<rparr> in
                 if oldval \<noteq> change_sel flag oldval
                 then select_single_loop row flag (t + 1) 1
                        (s1\<lparr>redraws := redraws s1 @ [Redraw_Range row row (leftcol s1) (rightcol s1)]\<rparr>)
                 else select_single_loop row flag (t + 1) ret s1))
         else
           (case vec_get (rowselect s) t of
              None \<Rightarrow> None
            | Some sel \<Rightarrow>
                if sel \<noteq> 0
                then select_single_loop row flag (t + 1) ret
                       (s\<lparr>rowselect := (rowselect s)[nat t := 0],
                          redraws := redraws s @ [Redraw_Range t t (leftcol s) (rightcol s)]\<rparr>)
                else select_single_loop row flag (t + 1) ret s))
      else Some (ret, s))"
  by pat_completeness auto
termination
  by (relation "measure (\<lambda>(row, flag, t, ret, s). nat (rows s - t))") auto

declare select_single_loop.simps [simp del]

definition select_row :: "int \<Rightarrow> int \<Rightarrow> Fl_Table_Row \<Rightarrow> (int \<times> Fl_Table_Row) option" where
  "select_row row flag s =
     (if row < 0 \<or> row \<ge> rows s then Some (- 1, s)
      else case selectmode s of
        SELECT_NONE \<Rightarrow> Some (- 1, s)
      | SELECT_SINGLE \<Rightarrow> select_single_loop row flag 0 0 s
      | SELECT_MULTI \<Rightarrow>
          (case vec_get (rowselect s) row of
             None \<Rightarrow> None
           | Some oldval \<Rightarrow>
               (let s1 = s\<lparr>rowselect := (rowselect s)[nat row := change_sel flag oldval]\<rparr> in
                if change_sel flag oldval \<noteq> oldval
                then Some (1, if row \<ge> toprow s1 \<and> row \<le> botrow s1
                              then s1\<lparr>redraws := redraws s1 @ [Redraw_Range row row (leftcol s1) (rightcol s1)]\<rparr>
                              else s1)
                else Some (0, s1))))"

text \<open>The number of selected rows: the non-zero bytes of the vector.\<close>

definition count_selected :: "Fl_Table_Row \<Rightarrow> nat" where
  "count_selected s = length (filter (\<lambda>sel. sel \<noteq> 0) (rowselect s))"

section \<open>Cairo graphics driver: the clip stack\<close>

text \<open>
  \<^verbatim>\<open>class Clip { public: int x, y, w, h; Clip *prev; };\<close> and the member
  \<^verbatim>\<open>Clip * clip_;\<close> of \<^verbatim>\<open>Fl_Cairo_Graphics_Driver\<close>. The chain of \<^verbatim>\<open>prev\<close>
  pointers is a list: its head is the node \<^verbatim>\<open>clip_\<close> points to, its tail is what
  \<^verbatim>\<open>prev\<close> reaches, and the empty list is the null pointer (no clipping).
\<close>

record Clip =
  clip_x :: int
  clip_y :: int
  clip_w :: int
  clip_h :: int

text \<open>
  Modelled from the spec: how \<^verbatim>\<open>push_no_clip()\<close> marks its node is not in the
  header. The specification calls the node an explicit "unbounded" marker that is pushed
  without intersecting, so a node of the stack is either a rectangle or that marker.
\<close>

datatype clip_node = Clip_Rect Clip | No_Clip

type_synonym clip_stack = "clip_node list"

text \<open>
  Modelled from the spec: the intersection of the rectangle \<open>(x, y, w, h)\<close> with a
  clip node, as a rectangle: the larger of the two left and top edges, and the smaller of
  the two right and bottom edges. The bodies of \<^verbatim>\<open>clip_box\<close> and
  \<^verbatim>\<open>push_clip\<close>, which compute it, are not in the header.
\<close>

definition rect_intersect :: "int \<Rightarrow> int \<Rightarrow> int \<Rightarrow> int \<Rightarrow> Clip \<Rightarrow> int \<times> int \<times> int \<times> int" where
  "rect_intersect x y w h c =
     (let X = max x (clip_x c);
          Y = max y (clip_y c);
          W = min (x + w) (clip_x c + clip_w c) - X;
          H = min (y + h) (clip_y c + clip_h c) - Y
      in (X, Y, W, H))"

text \<open>
  Modelled from the spec: the body of \<^verbatim>\<open>clip_box(x, y, w, h, X, Y, W, H)\<close> is not in
  the header. The specification: it "returns the intersection of the requested rectangle
  with the current clip"; a null clip node means no clipping, and so does the marker of
  \<^verbatim>\<open>push_no_clip()\<close>. The result is the rectangle \<open>(X, Y, W, H)\<close>; the flag that the
  function returns beside it is left out, the specification does not fix its values.
\<close>

definition clip_box :: "int \<Rightarrow> int \<Rightarrow> int \<Rightarrow> int \<Rightarrow> clip_stack \<Rightarrow> int \<times> int \<times> int \<times> int" where
  "clip_box x y w h st =
     (case st of
        [] \<Rightarrow> (x, y, w, h)
      | No_Clip # prev \<Rightarrow> (x, y, w, h)
      | Clip_Rect c # prev \<Rightarrow> rect_intersect x y w h c)"

text \<open>
  Modelled from the spec: the body of \<^verbatim>\<open>push_clip(x, y, w, h)\<close> is not in the header.
  The specification: it "intersects the given rectangle with the current top clip (if
  any) and pushes the intersection as the new top".
\<close>

definition push_clip :: "int \<Rightarrow> int \<Rightarrow> int \<Rightarrow> int \<Rightarrow> clip_stack \<Rightarrow> clip_stack" where
  "push_clip x y w h st =
     (case clip_box x y w h st of
        (X, Y, W, H) \<Rightarrow> Clip_Rect \<lparr>clip_x = X, clip_y = Y, clip_w = W, clip_h = H\<rparr> # st)"

text \<open>
  Modelled from the spec: the body of \<^verbatim>\<open>push_no_clip()\<close> is not in the header. The
  specification: it "pushes an explicit unbounded marker without intersecting".
\<close>

definition push_no_clip :: "clip_stack \<Rightarrow> clip_stack" where
  "push_no_clip st = No_Clip # st"

text \<open>
  Modelled from the spec: the body of \<^verbatim>\<open>pop_clip()\<close> is not in the header. The
  specification: it "restores the prior node", and on an empty stack a defensive
  implementation treats the call as a no-op.
\<close>

definition pop_clip :: "clip_stack \<Rightarrow> clip_stack" where
  "pop_clip st = (case st of [] \<Rightarrow> [] | node # prev \<Rightarrow> prev)"

text \<open>The three calls that change the clip stack, and a sequence of them run in order.\<close>

datatype clip_call = Push_Clip int int int int | Push_No_Clip | Pop_Clip

fun clip_call_run :: "clip_call \<Rightarrow> clip_stack \<Rightarrow> clip_stack" where
  "clip_call_run (Push_Clip x y w h) st = push_clip x y w h st"
| "clip_call_run Push_No_Clip st = push_no_clip st"
| "clip_call_run Pop_Clip st = pop_clip st"

fun is_push :: "clip_call \<Rightarrow> bool" where
  "is_push Pop_Clip = False"
| "is_push c = True"

text \<open>
  A sequence of calls is nested from depth \<open>d\<close> when every pop in it has a push
  before it, or one of the \<open>d\<close> pushes made earlier, and when it ends all of them are
  popped.
\<close>

fun nested :: "nat \<Rightarrow> clip_call list \<Rightarrow> bool" where
  "nested d [] = (d = 0)"
| "nested d (Pop_Clip # cs) = (d > 0 \<and> nested (d - 1) cs)"
| "nested d (Push_Clip x y w h # cs) = nested (Suc d) cs"
| "nested d (Push_No_Clip # cs) = nested (Suc d) cs"

text \<open>
  The pixels of a rectangle \<open>(x, y, w, h)\<close>: the columns from \<open>x\<close> up to
  \<open>x + w\<close> and the rows from \<open>y\<close> up to \<open>y + h\<close>, ends excluded. The pixels the
  current clip lets through are those of its top node, and all of them when there is no
  node or the top is the marker.
\<close>

definition in_rect :: "int \<times> int \<times> int \<times> int \<Rightarrow> int \<times> int \<Rightarrow> bool" where
  "in_rect r p =
     (case r of (x, y, w, h) \<Rightarrow> case p of (px, py) \<Rightarrow>
        x \<le> px \<and> px < x + w \<and> y \<le> py \<and> py < y + h)"

definition visible :: "clip_stack \<Rightarrow> int \<times> int \<Rightarrow> bool" where
  "visible st p =
     (case st of
        [] \<Rightarrow> True
      | No_Clip # prev \<Rightarrow> True
      | Clip_Rect c # prev \<Rightarrow> in_rect (clip_x c, clip_y c, clip_w c, clip_h c) p)"

section \<open>Example objects\<close>

text \<open>A driver whose coordinate limit is the 16-bit one, with an empty translation stack.\<close>

definition driver_16bit :: Fl_Xlib_Graphics_Driver where
  "driver_16bit =
     \<lparr>offset_x = 0, offset_y = 0, depth = 0,
      stack_x = replicate 20 0, stack_y = replicate 20 0, clip_max_field = 32767\<rparr>"

text \<open>A table of three rows in multi-selection mode, the first and the last selected.\<close>

definition table3 :: Fl_Table_Row where
  "table3 = \<lparr>rows = 3, toprow = 0, botrow = 2, leftcol = 0, rightcol = 1,
              rowselect = [1, 0, 1], selectmode = SELECT_MULTI, redraws = []\<rparr>"

section \<open>The coordinate clamp\<close>

text \<open>
  Claim C1. With the limit \<^verbatim>\<open>clip_max_\<close> at 32767, \<^verbatim>\<open>clip_xy\<close> returns 32767
  for every coordinate above 32767, -32767 for every coordinate below -32767, and the
  coordinate itself in between, so the result always lies in that range; 40000 becomes
  32767 and -40000 becomes -32767.
\<close>

theorem clip_xy_clamps_16bit:
  assumes "clip_max_field d = 32767"
  shows "(x > 32767 \<longrightarrow> clip_xy x d = 32767)
       \<and> (x < - 32767 \<longrightarrow> clip_xy x d = - 32767)
       \<and> (- 32767 \<le> x \<and> x \<le> 32767 \<longrightarrow> clip_xy x d = x)
       \<and> - 32767 \<le> clip_xy x d \<and> clip_xy x d \<le> 32767
       \<and> clip_xy 40000 d = 32767
       \<and> clip_xy (- 40000) d = - 32767"
  using assms by (simp add: clip_xy_def clip_min_def clip_max_def)

theorem clip_xy_clamps_16bit_witness:
  "clip_max_field driver_16bit = 32767
   \<and> clip_xy 32768 driver_16bit = 32767
   \<and> clip_xy (- 32768) driver_16bit = - 32767
   \<and> clip_xy 32767 driver_16bit = 32767
   \<and> clip_xy (- 32767) driver_16bit = - 32767
   \<and> clip_xy 250 driver_16bit = 250
   \<and> clip_xy 40000 driver_16bit = 32767
   \<and> clip_xy (- 40000) driver_16bit = - 32767"
proof -
  have lim: "clip_max_field driver_16bit = 32767"
    by (simp add: driver_16bit_def)
  show ?thesis
    using lim
      clip_xy_clamps_16bit [OF lim, of 32768]
      clip_xy_clamps_16bit [OF lim, of "- 32768"]
      clip_xy_clamps_16bit [OF lim, of 32767]
      clip_xy_clamps_16bit [OF lim, of "- 32767"]
      clip_xy_clamps_16bit [OF lim, of 250]
    by simp
qed

section \<open>Row selection\<close>

subsection \<open>The sweep of type()\<close>

lemma single_sweep_length: "length (single_sweep c v) = length v"
  by (induction v arbitrary: c) auto

lemma single_sweep_counted: "1 \<le> c \<Longrightarrow> filter (\<lambda>sel. sel \<noteq> 0) (single_sweep c v) = []"
  by (induction v arbitrary: c) auto

lemma single_sweep_at_most_one: "length (filter (\<lambda>sel. sel \<noteq> 0) (single_sweep 0 v)) \<le> 1"
  by (induction v) (auto simp: single_sweep_counted)

lemma single_sweep_counted_nth:
  "1 \<le> c \<Longrightarrow> i < length v \<Longrightarrow> single_sweep c v ! i = 0"
  by (induction v arbitrary: c i) (auto simp: nth_Cons split: nat.splits)

lemma single_sweep_nth:
  "i < length v \<Longrightarrow>
     single_sweep 0 v ! i = (if \<exists>j<i. v ! j \<noteq> 0 then 0 else v ! i)"
proof (induction v arbitrary: i)
  case Nil
  then show ?case by simp
next
  case (Cons a v)
  show ?case
  proof (cases i)
    case 0
    then show ?thesis by simp
  next
    case (Suc k)
    with Cons.prems have k: "k < length v" by simp
    show ?thesis
    proof (cases "a = 0")
      case True
      have "(\<exists>j<Suc k. (a # v) ! j \<noteq> 0) = (\<exists>j<k. v ! j \<noteq> 0)"
        using True by (simp add: Ex_less_Suc2)
      with True Suc Cons.IH [OF k] show ?thesis by auto
    next
      case False
      then have "\<exists>j<Suc k. (a # v) ! j \<noteq> 0" by (intro exI [of _ 0]) simp
      with False Suc k show ?thesis by (simp add: single_sweep_counted_nth)
    qed
  qed
qed

subsection \<open>The loop of select_row()\<close>

lemma only_one_nonzero:
  "\<forall>i<length v. int i \<noteq> row \<longrightarrow> v ! i = (0 :: 8 word) \<Longrightarrow>
     length (filter (\<lambda>sel. sel \<noteq> 0) v) \<le> 1"
proof (induction v arbitrary: row)
  case Nil
  then show ?case by simp
next
  case (Cons a v)
  show ?case
  proof (cases "row = 0")
    case True
    have "\<forall>i<length v. v ! i = 0"
    proof (intro allI impI)
      fix i assume "i < length v"
      with Cons.prems [rule_format, of "Suc i"] True show "v ! i = 0" by simp
    qed
    then have "filter (\<lambda>sel. sel \<noteq> 0) v = []"
      by (auto simp: filter_empty_conv in_set_conv_nth)
    then show ?thesis by simp
  next
    case False
    with Cons.prems [rule_format, of 0] have a: "a = 0" by simp
    have "\<forall>i<length v. int i \<noteq> row - 1 \<longrightarrow> v ! i = 0"
    proof (intro allI impI)
      fix i assume "i < length v" "int i \<noteq> row - 1"
      with Cons.prems [rule_format, of "Suc i"] show "v ! i = 0" by simp
    qed
    from Cons.IH [OF this] a show ?thesis by simp
  qed
qed

lemma select_single_loop_result:
  "int (length (rowselect s)) = rows s \<Longrightarrow> 0 \<le> t \<Longrightarrow>
     \<exists>ret' s'. select_single_loop row flag t ret s = Some (ret', s')
           \<and> rows s' = rows s \<and> selectmode s' = selectmode s
           \<and> length (rowselect s') = length (rowselect s)
           \<and> (\<forall>i<length (rowselect s). rowselect s' ! i =
                 (if int i < t then rowselect s ! i
                  else if int i = row then change_sel flag (rowselect s ! i) else 0))"
proof (induction "nat (rows s - t)" arbitrary: t ret s)
  case 0
  then have "\<not> t < rows s" by simp
  with 0 show ?case
    by (subst select_single_loop.simps) auto
next
  case (Suc n)
  from Suc.hyps(2) have inside: "t < rows s" by simp
  with Suc.prems have get: "vec_get (rowselect s) t = Some (rowselect s ! nat t)"
    by (simp add: vec_get_def)
  have step: "\<exists>ret1 s1. select_single_loop row flag t ret s = select_single_loop row flag (t + 1) ret1 s1
      \<and> rows s1 = rows s \<and> selectmode s1 = selectmode s
      \<and> rowselect s1 = (rowselect s)[nat t := (if t = row then change_sel flag (rowselect s ! nat t) else 0)]"
  proof (cases "t = row")
    case True
    show ?thesis
    proof (cases "rowselect s ! nat t \<noteq> change_sel flag (rowselect s ! nat t)")
      case changed: True
      have "select_single_loop row flag t ret s =
              select_single_loop row flag (t + 1) 1
                (s\<lparr>rowselect := (rowselect s)[nat t := change_sel flag (rowselect s ! nat t)],
                   redraws := redraws s @ [Redraw_Range row row (leftcol s) (rightcol s)]\<rparr>)"
        using inside get True changed
        by (subst select_single_loop.simps) (simp add: Let_def)
      with True show ?thesis
        by (intro exI [of _ 1]
             exI [of _ "s\<lparr>rowselect := (rowselect s)[nat t := change_sel flag (rowselect s ! nat t)],
                   redraws := redraws s @ [Redraw_Range row row (leftcol s) (rightcol s)]\<rparr>"]) simp
    next
      case same: False
      have "select_single_loop row flag t ret s =
              select_single_loop row flag (t + 1) ret
                (s\<lparr>rowselect := (rowselect s)[nat t := change_sel flag (rowselect s ! nat t)]\<rparr>)"
        using inside get True same
        by (subst select_single_loop.simps) (simp add: Let_def)
      with True show ?thesis
        by (intro exI [of _ ret]
             exI [of _ "s\<lparr>rowselect := (rowselect s)[nat t := change_sel flag (rowselect s ! nat t)]\<rparr>"]) simp
    qed
  next
    case False
    show ?thesis
    proof (cases "rowselect s ! nat t = 0")
      case True
      have "select_single_loop row flag t ret s = select_single_loop row flag (t + 1) ret s"
        using inside get False True
        by (subst select_single_loop.simps) simp
      moreover have "(rowselect s)[nat t := 0] = rowselect s"
        using True by (metis list_update_id)
      ultimately show ?thesis using False
        by (intro exI [of _ ret] exI [of _ s]) simp
    next
      case sel: False
      have "select_single_loop row flag t ret s =
              select_single_loop row flag (t + 1) ret
                (s\<lparr>rowselect := (rowselect s)[nat t := 0],
                   redraws := redraws s @ [Redraw_Range t t (leftcol s) (rightcol s)]\<rparr>)"
        using inside get False sel
        by (subst select_single_loop.simps) simp
      with False show ?thesis
        by (intro exI [of _ ret]
             exI [of _ "s\<lparr>rowselect := (rowselect s)[nat t := 0],
                   redraws := redraws s @ [Redraw_Range t t (leftcol s) (rightcol s)]\<rparr>"]) simp
    qed
  qed
  then obtain ret1 s1 where
    eq: "select_single_loop row flag t ret s = select_single_loop row flag (t + 1) ret1 s1"
    and keep: "rows s1 = rows s" "selectmode s1 = selectmode s"
    and upd: "rowselect s1 = (rowselect s)[nat t := (if t = row then change_sel flag (rowselect s ! nat t) else 0)]"
    by blast
  have "n = nat (rows s1 - (t + 1))"
    using Suc.hyps(2) keep by simp
  moreover have "int (length (rowselect s1)) = rows s1"
    using Suc.prems(1) keep upd by simp
  moreover have "0 \<le> t + 1"
    using Suc.prems(2) by simp
  ultimately have "\<exists>ret' s'. select_single_loop row flag (t + 1) ret1 s1 = Some (ret', s')
           \<and> rows s' = rows s1 \<and> selectmode s' = selectmode s1
           \<and> length (rowselect s') = length (rowselect s1)
           \<and> (\<forall>i<length (rowselect s1). rowselect s' ! i =
                 (if int i < t + 1 then rowselect s1 ! i
                  else if int i = row then change_sel flag (rowselect s1 ! i) else 0))"
    by (rule Suc.hyps(1))
  then obtain ret' s' where
    r: "select_single_loop row flag (t + 1) ret1 s1 = Some (ret', s')"
      "rows s' = rows s1" "selectmode s' = selectmode s1"
      "length (rowselect s') = length (rowselect s1)"
    and nth: "\<forall>i<length (rowselect s1). rowselect s' ! i =
                 (if int i < t + 1 then rowselect s1 ! i
                  else if int i = row then change_sel flag (rowselect s1 ! i) else 0)"
    by blast
  have "\<forall>i<length (rowselect s). rowselect s' ! i =
                 (if int i < t then rowselect s ! i
                  else if int i = row then change_sel flag (rowselect s ! i) else 0)"
  proof (intro allI impI)
    fix i assume i: "i < length (rowselect s)"
    show "rowselect s' ! i =
                 (if int i < t then rowselect s ! i
                  else if int i = row then change_sel flag (rowselect s ! i) else 0)"
    proof (cases "int i = t")
      case True
      then have "nat t = i" by simp
      with nth i upd True show ?thesis by auto
    next
      case False
      then have "nat t \<noteq> i" using Suc.prems(2) by auto
      with nth i upd False show ?thesis by auto
    qed
  qed
  with eq r keep upd show ?case by simp
qed


subsection \<open>Rejected calls\<close>

text \<open>
  Claim C9. \<^verbatim>\<open>select_row(row, flag)\<close> returns -1 and leaves the object as it was,
  the selection state of every row included, whenever \<open>row < 0\<close>, \<open>row >= rows()\<close>
  or the selection mode is \<^verbatim>\<open>SELECT_NONE\<close>.
\<close>

theorem select_row_rejects_unchanged:
  assumes "row < 0 \<or> row \<ge> rows s \<or> selectmode s = SELECT_NONE"
  shows "select_row row flag s = Some (- 1, s)"
  using assms by (auto simp: select_row_def)

theorem select_row_rejects_unchanged_witness:
  "select_row (- 1) 1 table3 = Some (- 1, table3)
   \<and> select_row 3 2 table3 = Some (- 1, table3)
   \<and> select_row 1 1 (type SELECT_NONE table3) = Some (- 1, type SELECT_NONE table3)
   \<and> rowselect table3 = [1, 0, 1]
   \<and> rowselect (type SELECT_NONE table3) = [0, 0, 0]"
proof -
  have a: "(- 1 :: int) < 0 \<or> - 1 \<ge> rows table3 \<or> selectmode table3 = SELECT_NONE"
    by simp
  have b: "(3 :: int) < 0 \<or> 3 \<ge> rows table3 \<or> selectmode table3 = SELECT_NONE"
    by (simp add: table3_def)
  have c: "(1 :: int) < 0 \<or> 1 \<ge> rows (type SELECT_NONE table3)
             \<or> selectmode (type SELECT_NONE table3) = SELECT_NONE"
    by (simp add: table3_def type_def)
  show ?thesis
    using select_row_rejects_unchanged [OF a, of 1]
      select_row_rejects_unchanged [OF b, of 2]
      select_row_rejects_unchanged [OF c, of 1]
    by (simp add: table3_def type_def)
qed

subsection \<open>Single selection\<close>

text \<open>
  Claim C10. In mode \<^verbatim>\<open>SELECT_SINGLE\<close> at most one row is selected after a call of
  \<^verbatim>\<open>type()\<close> or \<^verbatim>\<open>select_row()\<close>. \<^verbatim>\<open>type(SELECT_SINGLE)\<close> keeps the first
  selected row and clears every selected row after it. \<^verbatim>\<open>select_row(row, flag)\<close>
  in that mode, on a table whose vector has one byte per row, returns; for a row of the
  table it clears every other row (\<^verbatim>\<open>row_selected()\<close> is 0 for each of them) and
  changes the given row by the flag, so at most one row is selected; for any row it
  leaves at most one row selected when at most one was.
\<close>

theorem single_mode_one_selected:
  "count_selected (type SELECT_SINGLE s) \<le> 1
   \<and> selectmode (type SELECT_SINGLE s) = SELECT_SINGLE
   \<and> length (rowselect (type SELECT_SINGLE s)) = length (rowselect s)
   \<and> (\<forall>i<length (rowselect s).
         rowselect (type SELECT_SINGLE s) ! i =
           (if \<exists>j<i. rowselect s ! j \<noteq> 0 then 0 else rowselect s ! i))
   \<and> (selectmode s = SELECT_SINGLE \<and> int (length (rowselect s)) = rows s \<longrightarrow>
        (\<exists>ret s'. select_row row flag s = Some (ret, s')
           \<and> selectmode s' = SELECT_SINGLE
           \<and> int (length (rowselect s')) = rows s'
           \<and> (0 \<le> row \<and> row < rows s \<longrightarrow>
                 (\<forall>i<length (rowselect s'). int i \<noteq> row \<longrightarrow> rowselect s' ! i = 0)
                 \<and> (\<forall>r. r \<noteq> row \<longrightarrow> row_selected r s' = Some 0)
                 \<and> rowselect s' ! nat row = change_sel flag (rowselect s ! nat row)
                 \<and> count_selected s' \<le> 1)
           \<and> (count_selected s \<le> 1 \<longrightarrow> count_selected s' \<le> 1)))"
proof -
  have sweep: "count_selected (type SELECT_SINGLE s) \<le> 1
   \<and> selectmode (type SELECT_SINGLE s) = SELECT_SINGLE
   \<and> length (rowselect (type SELECT_SINGLE s)) = length (rowselect s)
   \<and> (\<forall>i<length (rowselect s).
         rowselect (type SELECT_SINGLE s) ! i =
           (if \<exists>j<i. rowselect s ! j \<noteq> 0 then 0 else rowselect s ! i))"
    using single_sweep_at_most_one [of "rowselect s"]
    by (simp add: type_def count_selected_def single_sweep_length single_sweep_nth)
  have sel: "\<exists>ret s'. select_row row flag s = Some (ret, s')
           \<and> selectmode s' = SELECT_SINGLE
           \<and> int (length (rowselect s')) = rows s'
           \<and> (0 \<le> row \<and> row < rows s \<longrightarrow>
                 (\<forall>i<length (rowselect s'). int i \<noteq> row \<longrightarrow> rowselect s' ! i = 0)
                 \<and> (\<forall>r. r \<noteq> row \<longrightarrow> row_selected r s' = Some 0)
                 \<and> rowselect s' ! nat row = change_sel flag (rowselect s ! nat row)
                 \<and> count_selected s' \<le> 1)
           \<and> (count_selected s \<le> 1 \<longrightarrow> count_selected s' \<le> 1)"
    if mode: "selectmode s = SELECT_SINGLE" and len: "int (length (rowselect s)) = rows s"
  proof (cases "row < 0 \<or> row \<ge> rows s")
    case True
    then have "select_row row flag s = Some (- 1, s)"
      by (simp add: select_row_def)
    with True mode len show ?thesis by auto
  next
    case False
    then have valid: "0 \<le> row" "row < rows s" by auto
    from select_single_loop_result [OF len, of 0 row flag 0]
    obtain ret' s' where
      r: "select_single_loop row flag 0 0 s = Some (ret', s')"
        "rows s' = rows s" "selectmode s' = selectmode s"
        "length (rowselect s') = length (rowselect s)"
      and nth: "\<forall>i<length (rowselect s). rowselect s' ! i =
                 (if int i < 0 then rowselect s ! i
                  else if int i = row then change_sel flag (rowselect s ! i) else 0)"
      by auto
    have res: "select_row row flag s = Some (ret', s')"
      using False mode r(1) by (simp add: select_row_def)
    have others: "\<forall>i<length (rowselect s'). int i \<noteq> row \<longrightarrow> rowselect s' ! i = 0"
      using nth r(4) by simp
    have given: "rowselect s' ! nat row = change_sel flag (rowselect s ! nat row)"
      using nth [rule_format, of "nat row"] valid len by simp
    have one: "count_selected s' \<le> 1"
      unfolding count_selected_def by (rule only_one_nonzero [OF others])
    have seen: "\<forall>r. r \<noteq> row \<longrightarrow> row_selected r s' = Some 0"
    proof (intro allI impI)
      fix r :: int
      assume other: "r \<noteq> row"
      show "row_selected r s' = Some 0"
      proof (cases "r < 0 \<or> r \<ge> rows s'")
        case True
        then show ?thesis by (simp add: row_selected_def)
      next
        case False
        with r(2,4) len other have "nat r < length (rowselect s')" "int (nat r) \<noteq> row"
          by auto
        with others have "rowselect s' ! nat r = 0" by simp
        with False r(2,4) len show ?thesis
          by (simp add: row_selected_def vec_get_def)
      qed
    qed
    show ?thesis
      using res r(2,3,4) mode len others given one seen by simp
  qed
  from sweep sel show ?thesis by blast
qed

theorem single_mode_one_selected_witness:
  "rowselect (type SELECT_SINGLE table3) = [1, 0, 0]
   \<and> count_selected (type SELECT_SINGLE table3) \<le> 1
   \<and> selectmode (type SELECT_SINGLE table3) = SELECT_SINGLE
   \<and> int (length (rowselect (type SELECT_SINGLE table3))) = rows (type SELECT_SINGLE table3)
   \<and> (\<exists>ret s'. select_row 2 1 (type SELECT_SINGLE table3) = Some (ret, s')
         \<and> ret = 1 \<and> rowselect s' = [0, 0, 1] \<and> count_selected s' \<le> 1
         \<and> row_selected 0 s' = Some 0 \<and> row_selected 1 s' = Some 0
         \<and> row_selected 2 s' = Some 1)"
proof -
  let ?s = "type SELECT_SINGLE table3"
  have pre: "selectmode ?s = SELECT_SINGLE \<and> int (length (rowselect ?s)) = rows ?s"
    by (simp add: type_def table3_def)
  have valid: "(0 :: int) \<le> 2 \<and> 2 < rows ?s"
    by (simp add: type_def table3_def)
  have run: "select_row 2 1 ?s =
      Some (1, ?s\<lparr>rowselect := [0, 0, 1],
                   redraws := [Redraw, Redraw_Range 0 0 0 1, Redraw_Range 2 2 0 1]\<rparr>)"
    by (simp add: select_row_def type_def table3_def select_single_loop.simps
          vec_get_def change_sel_def)
  show ?thesis
    using single_mode_one_selected [of table3 2 1]
      single_mode_one_selected [of ?s 2 1] pre valid run
    by (simp add: type_def table3_def count_selected_def row_selected_def vec_get_def)
qed


section \<open>The clip stack\<close>

lemma push_pop: "pop_clip (clip_call_run c st) = st" if "is_push c"
  using that by (cases c) (auto simp: pop_clip_def push_clip_def push_no_clip_def split: prod.splits)

lemma pops_after_pushes:
  "list_all is_push cs \<Longrightarrow> (pop_clip ^^ length cs) (fold clip_call_run cs st) = st"
proof (induction cs arbitrary: st)
  case Nil
  then show ?case by simp
next
  case (Cons c cs)
  then have "(pop_clip ^^ length cs) (fold clip_call_run cs (clip_call_run c st)) = clip_call_run c st"
    by simp
  with Cons.prems show ?case
    by (simp add: push_pop funpow_swap1)
qed

lemma nested_run:
  "nested d cs \<Longrightarrow> d \<le> length st \<Longrightarrow> fold clip_call_run cs st = drop d st"
proof (induction d cs arbitrary: st rule: nested.induct)
  case (1 d)
  then show ?case by simp
next
  case (2 d cs)
  then obtain node prev where st: "st = node # prev" by (cases st) auto
  with 2 show ?case by (cases d) (auto simp: pop_clip_def)
next
  case (3 d x y w h cs)
  then show ?case by (auto simp: push_clip_def split: prod.splits)
next
  case (4 d cs)
  then show ?case by (auto simp: push_no_clip_def)
qed

lemma in_rect_intersect:
  "in_rect (rect_intersect x y w h c) p =
     (in_rect (x, y, w, h) p \<and> in_rect (clip_x c, clip_y c, clip_w c, clip_h c) p)"
  by (cases p) (auto simp: in_rect_def rect_intersect_def Let_def)

lemma in_rect_clip_box:
  "in_rect (clip_box x y w h st) p = (in_rect (x, y, w, h) p \<and> visible st p)"
  by (auto simp: clip_box_def visible_def in_rect_intersect split: list.splits clip_node.splits)

lemma visible_push_clip:
  "visible (push_clip x y w h st) p = (in_rect (x, y, w, h) p \<and> visible st p)"
proof -
  obtain X Y W H where b: "clip_box x y w h st = (X, Y, W, H)"
    by (cases "clip_box x y w h st") auto
  then have "visible (push_clip x y w h st) p = in_rect (clip_box x y w h st) p"
    by (simp add: push_clip_def visible_def)
  then show ?thesis by (simp add: in_rect_clip_box)
qed

lemma visible_pushes:
  "visible (fold (\<lambda>(x, y, w, h). push_clip x y w h) rs st) p =
     (visible st p \<and> (\<forall>r\<in>set rs. in_rect r p))"
  by (induction rs arbitrary: st) (auto simp: visible_push_clip)

subsection \<open>Pushes and pops\<close>

text \<open>
  Claim C4. After N calls of \<^verbatim>\<open>push_clip()\<close> or \<^verbatim>\<open>push_no_clip()\<close>, N calls of
  \<^verbatim>\<open>pop_clip()\<close> give back the clip stack that held before the pushes, node for node;
  one \<^verbatim>\<open>pop_clip()\<close> removes the top node only and leaves the previous node on top;
  and every nested sequence of pushes and pops ends in the stack it started from. The
  stack is a linked list, so this holds at every depth.
\<close>

theorem clip_stack_lifo:
  "(list_all is_push cs \<longrightarrow> (pop_clip ^^ length cs) (fold clip_call_run cs st) = st)
   \<and> (is_push c \<longrightarrow> pop_clip (clip_call_run c st) = st)
   \<and> pop_clip (node # st) = st
   \<and> (nested 0 cs \<longrightarrow> fold clip_call_run cs st = st)"
proof -
  have "nested 0 cs \<longrightarrow> fold clip_call_run cs st = st"
    using nested_run [of 0 cs st] by simp
  moreover have "pop_clip (node # st) = st"
    by (simp add: pop_clip_def)
  ultimately show ?thesis
    by (simp add: pops_after_pushes push_pop)
qed

theorem clip_stack_lifo_witness:
  "list_all is_push [Push_Clip 0 0 100 100, Push_No_Clip, Push_Clip 20 20 50 50]
   \<and> (pop_clip ^^ 3)
        (fold clip_call_run [Push_Clip 0 0 100 100, Push_No_Clip, Push_Clip 20 20 50 50]
           (push_clip 5 5 10 10 [])) = push_clip 5 5 10 10 []
   \<and> is_push (Push_Clip 20 20 50 50)
   \<and> pop_clip (push_clip 20 20 50 50 (push_clip 0 0 100 100 [])) = push_clip 0 0 100 100 []
   \<and> nested 0 [Push_Clip 0 0 100 100, Push_No_Clip, Pop_Clip, Push_Clip 20 20 50 50,
                 Pop_Clip, Pop_Clip]
   \<and> fold clip_call_run
        [Push_Clip 0 0 100 100, Push_No_Clip, Pop_Clip, Push_Clip 20 20 50 50,
         Pop_Clip, Pop_Clip] (push_clip 5 5 10 10 []) = push_clip 5 5 10 10 []"
proof -
  have pushes: "list_all is_push [Push_Clip 0 0 100 100, Push_No_Clip, Push_Clip 20 20 50 50]"
    by simp
  have one: "is_push (Push_Clip 20 20 50 50)"
    by simp
  have nest: "nested 0 [Push_Clip 0 0 100 100, Push_No_Clip, Pop_Clip, Push_Clip 20 20 50 50,
                 Pop_Clip, Pop_Clip]"
    by simp
  show ?thesis
    using pushes one nest
      clip_stack_lifo [of "[Push_Clip 0 0 100 100, Push_No_Clip, Push_Clip 20 20 50 50]"
        "push_clip 5 5 10 10 []" "Push_Clip 20 20 50 50" No_Clip]
      clip_stack_lifo [of "[Push_Clip 0 0 100 100, Push_No_Clip, Pop_Clip, Push_Clip 20 20 50 50,
                 Pop_Clip, Pop_Clip]"
        "push_clip 5 5 10 10 []" "Push_No_Clip" No_Clip]
      clip_stack_lifo [of "[]" "push_clip 0 0 100 100 []" "Push_Clip 20 20 50 50" No_Clip]
    by (simp add: numeral_3_eq_3)
qed

subsection \<open>The visible rectangle\<close>

text \<open>
  Claim C5. \<^verbatim>\<open>clip_box(x, y, w, h)\<close> returns the intersection of the requested
  rectangle with the current clip: a pixel lies in the returned rectangle exactly when
  it lies in the requested one and the current clip lets it through. After rectangles
  are pushed with \<^verbatim>\<open>push_clip()\<close> the current clip is the intersection of all of them
  (and of the clip that held before). After \<^verbatim>\<open>push_clip(0,0,100,100)\<close> and
  \<^verbatim>\<open>push_clip(20,20,50,50)\<close>, \<^verbatim>\<open>clip_box(0,0,200,200)\<close> returns (20,20,50,50).
\<close>

theorem clip_box_intersection:
  "in_rect (clip_box x y w h st) p = (in_rect (x, y, w, h) p \<and> visible st p)
   \<and> in_rect (clip_box x y w h (fold (\<lambda>(rx, ry, rw, rh). push_clip rx ry rw rh) rs st)) p =
       (in_rect (x, y, w, h) p \<and> visible st p \<and> (\<forall>r\<in>set rs. in_rect r p))
   \<and> in_rect (clip_box x y w h (fold (\<lambda>(rx, ry, rw, rh). push_clip rx ry rw rh) rs [])) p =
       (in_rect (x, y, w, h) p \<and> (\<forall>r\<in>set rs. in_rect r p))
   \<and> clip_box 0 0 200 200 (push_clip 20 20 50 50 (push_clip 0 0 100 100 [])) = (20, 20, 50, 50)"
proof -
  have "visible [] p"
    by (simp add: visible_def)
  moreover have "clip_box 0 0 200 200 (push_clip 20 20 50 50 (push_clip 0 0 100 100 [])) = (20, 20, 50, 50)"
    by (simp add: clip_box_def push_clip_def rect_intersect_def)
  ultimately show ?thesis
    by (simp add: in_rect_clip_box visible_pushes)
qed

theorem clip_box_intersection_witness:
  "in_rect (clip_box 0 0 200 200
      (fold (\<lambda>(rx, ry, rw, rh). push_clip rx ry rw rh) [(0, 0, 100, 100), (20, 20, 50, 50)] []))
      (30, 30)
   \<and> in_rect (0, 0, 200, 200) (30, 30)
   \<and> in_rect (0, 0, 100, 100) (30, 30)
   \<and> in_rect (20, 20, 50, 50) (30, 30)
   \<and> \<not> in_rect (clip_box 0 0 200 200
      (fold (\<lambda>(rx, ry, rw, rh). push_clip rx ry rw rh) [(0, 0, 100, 100), (20, 20, 50, 50)] []))
      (10, 10)
   \<and> \<not> in_rect (20, 20, 50, 50) (10, 10)
   \<and> clip_box 0 0 200 200
      (fold (\<lambda>(rx, ry, rw, rh). push_clip rx ry rw rh) [(0, 0, 100, 100), (20, 20, 50, 50)] [])
      = (20, 20, 50, 50)"
proof -
  have pts: "in_rect (0, 0, 200, 200) (30, 30)" "in_rect (0, 0, 100, 100) (30, 30)"
    "in_rect (20, 20, 50, 50) (30, 30)" "\<not> in_rect (20, 20, 50, 50) (10, 10)"
    by (simp_all add: in_rect_def)
  have folded: "fold (\<lambda>(rx, ry, rw, rh). push_clip rx ry rw rh) [(0, 0, 100, 100), (20, 20, 50, 50)] []
      = push_clip 20 20 50 50 (push_clip 0 0 100 100 [])"
    by simp
  show ?thesis
    using pts folded
      clip_box_intersection [of 0 0 200 200 "[]" "(30, 30)" "[(0, 0, 100, 100), (20, 20, 50, 50)]"]
      clip_box_intersection [of 0 0 200 200 "[]" "(10, 10)" "[(0, 0, 100, 100), (20, 20, 50, 50)]"]
    by simp
qed

end
